theory Spec2Isabelle
  imports Main
begin

section \<open>The categorize-animation plugin: data\<close>

text \<open>
  The trial parameters of \<^verbatim>\<open>plugin-categorize-animation/src/index.ts\<close>
  (\<^verbatim>\<open>TrialType<Info>\<close>). Parameters whose default is \<^verbatim>\<open>null\<close> are options;
  \<^verbatim>\<open>sequence_reps\<close> is an integer whose value \<open>-1\<close> means "no bound".
\<close>

datatype choices = AllKeys | Keys "string list"

record trial_info =
  stimuli :: "string list"
  key_answer :: string
  choices :: choices
  text_answer :: "string option"
  correct_text :: string
  incorrect_text :: string
  frame_time :: int
  sequence_reps :: int
  allow_response_before_complete :: bool
  feedback_duration :: int
  prompt :: "string option"
  render_on_canvas :: bool

text \<open>The argument of the keyboard callback, \<^verbatim>\<open>info: {key: string, rt: number}\<close>.\<close>

record key_info =
  key :: string
  rt :: nat

text \<open>
  The object assigned to \<^verbatim>\<open>trial_data\<close> in \<^verbatim>\<open>after_response\<close>. The variable starts
  as the empty object \<^verbatim>\<open>{}\<close>, which is \<open>None\<close> in the state below.
\<close>

record trial_data =
  data_stimulus :: "string list"
  data_rt :: nat
  data_correct :: bool
  data_response :: string

datatype js_error = TypeError

text \<open>
  What the trial writes to its display element: the markup assigned or appended through
  \<^verbatim>\<open>innerHTML\<close> (the only channel of the direct-markup mode), and the three elements the
  canvas mode creates (\<^verbatim>\<open>canvas\<close>, \<^verbatim>\<open>prompt_div\<close>, \<^verbatim>\<open>feedback_div\<close>), each with the
  properties the code sets. \<open>innerHTML\<close> is the text that the code has written, in the order
  written; the browser parses it and reads it back in its own serialisation (an
  \<^verbatim>\<open></img>\<close> end tag, for one, is dropped), which is not modelled.
\<close>

record display =
  innerHTML :: string
  canvas_attached :: bool
  canvas_visibility :: string
  canvas_image :: "string option"
  prompt_attached :: bool
  prompt_visibility :: string
  prompt_html :: string
  feedback_attached :: bool
  feedback_html :: string

text \<open>
  The mutable variables closed over by the callbacks of \<^verbatim>\<open>trial\<close> (\<open>animate_frame\<close> to
  \<open>display_element\<close>), followed by the state of the host services the callbacks call: the clock, the
  repeating timer behind \<^verbatim>\<open>animate_interval\<close> (period and next due time, \<open>None\<close> once
  cleared), the due times of every one-shot timer armed with \<^verbatim>\<open>pluginAPI.setTimeout\<close> and
  how many of them have run, whether the keyboard listener is registered, the arguments of
  every \<^verbatim>\<open>finishTrial\<close> call with the time of the call, and the exceptions that escaped a
  callback.
\<close>

record run_state =
  animate_frame :: int
  reps :: int
  showAnimation :: bool
  responded :: bool
  timeoutSet :: bool
  correct :: "bool option"
  trial_data :: "trial_data option"
  display_element :: display
  clock :: nat
  interval :: "(nat \<times> nat) option"
  armed :: "nat list"
  fired :: nat
  keyboard_listener :: bool
  finished :: "(nat \<times> trial_data option) list"
  uncaught :: "js_error list"

text \<open>
  What the trial takes from its surroundings: the host's key-equality policy (see
  \<open>compareKeys\<close>), and whether the global object has a \<^verbatim>\<open>jsPsych\<close> property. The second
  matters because the callback given to \<^verbatim>\<open>setInterval\<close> is a \<^verbatim>\<open>function\<close> expression, not
  an arrow function: the browser calls it with \<^verbatim>\<open>this\<close> bound to the global object, so
  \<^verbatim>\<open>this.jsPsych.pluginAPI.setTimeout\<close> in its body reads \<^verbatim>\<open>window.jsPsych\<close>, not the
  \<^verbatim>\<open>jsPsych\<close> of the plugin instance.
\<close>

record host_env =
  key_policy :: "string \<Rightarrow> string"
  global_jsPsych :: bool

section \<open>Strings: \<^verbatim>\<open>String.prototype.replace\<close> with a string pattern\<close>

fun starts_with :: "string \<Rightarrow> string \<Rightarrow> bool" where
  "starts_with [] s = True"
| "starts_with (p # ps) [] = False"
| "starts_with (p # ps) (c # cs) = (p = c \<and> starts_with ps cs)"

text \<open>
  \<open>split_first pat s\<close> finds the first occurrence of \<open>pat\<close> in \<open>s\<close> and returns the text
  before it and the text after it.
\<close>

fun split_first :: "string \<Rightarrow> string \<Rightarrow> (string \<times> string) option" where
  "split_first pat [] = (if pat = [] then Some ([], []) else None)"
| "split_first pat (c # cs) =
     (if starts_with pat (c # cs) then Some ([], drop (length pat) (c # cs))
      else (case split_first pat cs of
              None \<Rightarrow> None
            | Some (front, back) \<Rightarrow> Some (c # front, back)))"

text \<open>
  The replacement text is not inserted as it is: \<^verbatim>\<open>replace\<close> expands it with
  ECMAScript's GetSubstitution. With a string pattern there are no captures, so the
  patterns that expand are \<^verbatim>\<open>$$\<close> (a dollar sign), \<^verbatim>\<open>$&\<close> (the matched text),
  \<^verbatim>\<open>$`\<close> (the text before the match) and \<^verbatim>\<open>$'\<close> (the text after it); any other
  \<^verbatim>\<open>$\<close> stays.
\<close>

fun get_substitution :: "string \<Rightarrow> string \<Rightarrow> string \<Rightarrow> string \<Rightarrow> string" where
  "get_substitution matched front back [] = []"
| "get_substitution matched front back [c] = [c]"
| "get_substitution matched front back (c # d # r) =
     (if c = CHR ''$'' \<and> d = CHR ''$'' then CHR ''$'' # get_substitution matched front back r
      else if c = CHR ''$'' \<and> d = CHR ''&'' then matched @ get_substitution matched front back r
      else if c = CHR ''$'' \<and> d = CHR ''`'' then front @ get_substitution matched front back r
      else if c = CHR ''$'' \<and> d = CHR 0x27 then back @ get_substitution matched front back r
      else c # get_substitution matched front back (d # r))"

definition js_replace :: "string \<Rightarrow> string \<Rightarrow> string \<Rightarrow> string" where
  "js_replace pat replacement s =
     (case split_first pat s of
        None \<Rightarrow> s
      | Some (front, back) \<Rightarrow> front @ get_substitution pat front back replacement @ back)"

text \<open>\<^verbatim>\<open>ToString\<close> of a parameter that is a string or \<^verbatim>\<open>null\<close>.\<close>

definition to_string :: "string option \<Rightarrow> string" where
  "to_string v = (case v of None \<Rightarrow> ''null'' | Some s \<Rightarrow> s)"

text \<open>\<^verbatim>\<open>xs[i]\<close> in string context: a read out of range gives \<^verbatim>\<open>undefined\<close>.\<close>

definition stimulus_at :: "string list \<Rightarrow> int \<Rightarrow> string" where
  "stimulus_at xs i = (if 0 \<le> i \<and> i < int (length xs) then xs ! nat i else ''undefined'')"

section \<open>The categorize-animation plugin: the callbacks\<close>

text \<open>
  Modelled from the spec: \<^verbatim>\<open>pluginAPI.compareKeys\<close> is a service of the host, not part
  of the plugin's source; the specification describes it as "policy-driven key equality (may
  normalize case/aliases; exact policy owned by host)". The policy is the normalisation that
  the host applies to both keys before it compares them.
\<close>

definition compareKeys :: "(string \<Rightarrow> string) \<Rightarrow> string \<Rightarrow> string \<Rightarrow> bool" where
  "compareKeys policy expected observed = (policy expected = policy observed)"

text \<open>
  Modelled from the spec: two policies a host may own. \<open>case_sensitive\<close> compares the keys
  as they are; \<open>case_folding\<close> maps the letters \<^verbatim>\<open>A\<close> to \<^verbatim>\<open>Z\<close> to lower case first.
\<close>

definition case_sensitive :: "string \<Rightarrow> string" where
  "case_sensitive k = k"

definition lower_char :: "char \<Rightarrow> char" where
  "lower_char c =
     (case map_of (zip ''ABCDEFGHIJKLMNOPQRSTUVWXYZ'' ''abcdefghijklmnopqrstuvwxyz'') c of
        None \<Rightarrow> c
      | Some l \<Rightarrow> l)"

definition case_folding :: "string \<Rightarrow> string" where
  "case_folding k = map lower_char k"

subsection \<open>The periodic callback \<^verbatim>\<open>animate_interval\<close>\<close>

text \<open>
  Lines 134 to 136: the direct-markup mode starts every tick from an empty element.
\<close>

definition clear_markup :: "trial_info \<Rightarrow> run_state \<Rightarrow> run_state" where
  "clear_markup t s =
     (if \<not> render_on_canvas t
      then s\<lparr>display_element := (display_element s)\<lparr>innerHTML := []\<rparr>\<rparr>
      else s)"

text \<open>
  Lines 137 to 146: the frame index is incremented; when it reaches the length of the
  sequence it goes back to 0, a repetition is counted, and the animation is switched off
  once the repetitions reach a target other than \<open>-1\<close>.
\<close>

definition advance_frame :: "trial_info \<Rightarrow> run_state \<Rightarrow> run_state" where
  "advance_frame t s =
     (let s1 = s\<lparr>animate_frame := animate_frame s + 1\<rparr> in
      if animate_frame s1 = int (length (stimuli t)) then
        (let s2 = s1\<lparr>animate_frame := 0, reps := reps s1 + 1\<rparr> in
         if sequence_reps t \<noteq> - 1 \<and> reps s2 \<ge> sequence_reps t
         then s2\<lparr>showAnimation := False\<rparr>
         else s2)
      else s1)"

text \<open>
  Lines 148 to 163: the current frame is drawn while the animation runs. In canvas mode
  the canvas is looked up in the display element with \<^verbatim>\<open>querySelector\<close>; were it no
  longer attached, the lookup would give \<^verbatim>\<open>null\<close> and the property access would throw.
\<close>

definition show_frame :: "trial_info \<Rightarrow> run_state \<Rightarrow> js_error + run_state" where
  \<open>show_frame t s =
     (if showAnimation s then
        (if render_on_canvas t then
           (if canvas_attached (display_element s) then
              Inr (s\<lparr>display_element := (display_element s)\<lparr>canvas_visibility := ''visible'',
                     canvas_image := Some (stimulus_at (stimuli t) (animate_frame s))\<rparr>\<rparr>)
            else Inl TypeError)
         else
           Inr (s\<lparr>display_element := (display_element s)\<lparr>innerHTML :=
                  innerHTML (display_element s) @ ''<img src="'' @
                  stimulus_at (stimuli t) (animate_frame s) @
                  ''" class="jspsych-categorize-animation-stimulus"></img>''\<rparr>\<rparr>))
      else Inr s)\<close>

text \<open>The prompt is revealed (canvas mode) or appended (direct markup), when there is one.\<close>

definition show_prompt :: "trial_info \<Rightarrow> run_state \<Rightarrow> run_state" where
  "show_prompt t s =
     (case prompt t of
        None \<Rightarrow> s
      | Some p \<Rightarrow>
          if render_on_canvas t
          then s\<lparr>display_element := (display_element s)\<lparr>prompt_visibility := ''visible''\<rparr>\<rparr>
          else s\<lparr>display_element := (display_element s)\<lparr>innerHTML :=
                  innerHTML (display_element s) @ p\<rparr>\<rparr>)"

definition remove_canvas :: "run_state \<Rightarrow> run_state" where
  "remove_canvas s = s\<lparr>display_element := (display_element s)\<lparr>canvas_attached := False\<rparr>\<rparr>"

text \<open>
  Lines 198 to 203: the feedback text. \<^verbatim>\<open>correct\<close> is \<^verbatim>\<open>undefined\<close> (here \<open>None\<close>) until
  a response is scored, and \<^verbatim>\<open>undefined\<close> is falsy.
\<close>

definition feedback_text :: "trial_info \<Rightarrow> bool option \<Rightarrow> string" where
  "feedback_text t c =
     (if c = Some True then js_replace ''%ANS%'' (to_string (text_answer t)) (correct_text t)
      else js_replace ''%ANS%'' (to_string (text_answer t)) (incorrect_text t))"

text \<open>Lines 204 to 211: the feedback is rendered.\<close>

definition show_feedback :: "trial_info \<Rightarrow> run_state \<Rightarrow> run_state" where
  "show_feedback t s =
     (if render_on_canvas t then
        (let s1 = (if prompt t \<noteq> None
                   then s\<lparr>display_element := (display_element s)\<lparr>prompt_attached := False\<rparr>\<rparr>
                   else s)
         in s1\<lparr>display_element := (display_element s1)\<lparr>feedback_html :=
                 feedback_text t (correct s1)\<rparr>\<rparr>)
      else s\<lparr>display_element := (display_element s)\<lparr>innerHTML :=
               innerHTML (display_element s) @ feedback_text t (correct s)\<rparr>\<rparr>)"

text \<open>
  Lines 213 to 219: the one-shot timer that ends the trial, behind the \<^verbatim>\<open>timeoutSet\<close>
  guard. The flag is set before \<^verbatim>\<open>this.jsPsych.pluginAPI.setTimeout\<close> is evaluated; where
  the global object has no \<^verbatim>\<open>jsPsych\<close>, that evaluation throws and no timer is armed. A
  timer armed at time \<open>c\<close> with delay \<open>d\<close> is due at \<open>c + d\<close>; a negative delay counts as 0.
\<close>

definition arm_timeout :: "host_env \<Rightarrow> trial_info \<Rightarrow> run_state \<Rightarrow> run_state" where
  "arm_timeout env t s =
     (if \<not> timeoutSet s then
        (let s1 = s\<lparr>timeoutSet := True\<rparr> in
         if global_jsPsych env
         then s1\<lparr>armed := armed s1 @ [clock s1 + nat (feedback_duration t)]\<rparr>
         else s1\<lparr>uncaught := uncaught s1 @ [TypeError]\<rparr>)
      else s)"

text \<open>Lines 165 to 220: the three branches on \<^verbatim>\<open>responded\<close>.\<close>

definition response_phase :: "host_env \<Rightarrow> trial_info \<Rightarrow> run_state \<Rightarrow> run_state" where
  "response_phase env t s =
     (if \<not> responded s \<and> allow_response_before_complete t then
        (let s1 = show_prompt t s in
         if render_on_canvas t \<and> \<not> showAnimation s1 then remove_canvas s1 else s1)
      else if \<not> responded s then
        (if \<not> showAnimation s then
           (let s1 = show_prompt t s in
            if render_on_canvas t then remove_canvas s1 else s1)
         else s)
      else arm_timeout env t (show_feedback t s))"

text \<open>
  The whole callback. An exception leaves the callback at once: the state keeps what was
  written before it, and the exception is recorded.
\<close>

definition animate_interval :: "host_env \<Rightarrow> trial_info \<Rightarrow> run_state \<Rightarrow> run_state" where
  "animate_interval env t s =
     (let s1 = advance_frame t (clear_markup t s) in
      case show_frame t s1 of
        Inl e \<Rightarrow> s1\<lparr>uncaught := uncaught s1 @ [e]\<rparr>
      | Inr s2 \<Rightarrow> response_phase env t s2)"

subsection \<open>\<^verbatim>\<open>endTrial\<close> and \<^verbatim>\<open>after_response\<close>\<close>

text \<open>
  Lines 223 to 227: \<^verbatim>\<open>clearInterval\<close>, the display is emptied (which detaches every
  child), and \<^verbatim>\<open>trial_data\<close> goes to \<^verbatim>\<open>finishTrial\<close>.
\<close>

definition endTrial :: "trial_info \<Rightarrow> run_state \<Rightarrow> run_state" where
  "endTrial t s =
     s\<lparr>interval := None,
       display_element := (display_element s)\<lparr>innerHTML := [], canvas_attached := False,
                prompt_attached := False, feedback_attached := False\<rparr>,
       finished := finished s @ [(clock s, trial_data s)]\<rparr>"

text \<open>
  Lines 233 to 255: a key is ignored while the animation plays, unless responses are
  allowed before it completes. Otherwise the response is scored, recorded, and the keyboard
  listener is cancelled.
\<close>

definition after_response :: "host_env \<Rightarrow> trial_info \<Rightarrow> key_info \<Rightarrow> run_state \<Rightarrow> run_state" where
  "after_response env t info s =
     (if \<not> allow_response_before_complete t \<and> showAnimation s then s
      else
        (let s1 = s\<lparr>correct := Some False\<rparr>;
             s2 = (if compareKeys (key_policy env) (key_answer t) (key info)
                   then s1\<lparr>correct := Some True\<rparr> else s1);
             s3 = s2\<lparr>responded := True\<rparr>;
             s4 = s3\<lparr>trial_data := Some \<lparr>data_stimulus = stimuli t, data_rt = rt info,
                     data_correct = (correct s3 = Some True), data_response = key info\<rparr>\<rparr>
         in s4\<lparr>keyboard_listener := False\<rparr>))"

subsection \<open>The body of \<^verbatim>\<open>trial\<close>\<close>

text \<open>
  Lines 98 to 130 and 257 to 263: the variables are initialised, the canvas mode empties
  the display element and inserts its elements, the repeating timer and the keyboard
  listener are registered. \<open>content\<close> is what the display element holds when the trial
  starts; the trial starts at time 0.
\<close>

definition trial :: "string \<Rightarrow> trial_info \<Rightarrow> run_state" where
  "trial content t =
     \<lparr>animate_frame = - 1, reps = 0, showAnimation = True, responded = False,
      timeoutSet = False, correct = None, trial_data = None,
      display_element =
        (if render_on_canvas t then
           \<lparr>innerHTML = [], canvas_attached = True, canvas_visibility = [],
            canvas_image = None,
            prompt_attached = (prompt t \<noteq> None),
            prompt_visibility = (if prompt t \<noteq> None then ''hidden'' else []),
            prompt_html = (case prompt t of None \<Rightarrow> [] | Some p \<Rightarrow> p),
            feedback_attached = True, feedback_html = []\<rparr>
         else
           \<lparr>innerHTML = content, canvas_attached = False, canvas_visibility = [],
            canvas_image = None, prompt_attached = False, prompt_visibility = [],
            prompt_html = [], feedback_attached = False, feedback_html = []\<rparr>),
      clock = 0,
      interval = Some (nat (frame_time t), nat (frame_time t)),
      armed = [], fired = 0, keyboard_listener = True, finished = [], uncaught = []\<rparr>"

section \<open>The host: which callback runs when\<close>

text \<open>
  Modelled from the spec: the timer and keyboard services belong to the host engine, whose
  code is not part of the plugins. The specification gives their contract: a repeating
  timer that calls back every period until it is cancelled, a one-shot timer that calls
  back once after its delay and is cancelled when the trial ends, a key listener that
  delivers the accepted keys ("or accept any") until it is deregistered, after which "no
  further key events for that trial are delivered", and callbacks that never run
  concurrently. An event that the contract rules out is not delivered: the state stays as
  it is.
\<close>

datatype event = Tick | KeyPress key_info | Timeout

definition valid_response :: "host_env \<Rightarrow> choices \<Rightarrow> string \<Rightarrow> bool" where
  "valid_response env ch k =
     (case ch of
        AllKeys \<Rightarrow> True
      | Keys ks \<Rightarrow> key_policy env k \<in> set (map (key_policy env) ks))"

definition deliver :: "host_env \<Rightarrow> trial_info \<Rightarrow> event \<Rightarrow> run_state \<Rightarrow> run_state" where
  "deliver env t ev s =
     (case ev of
        Tick \<Rightarrow>
          (case interval s of
             None \<Rightarrow> s
           | Some (period, due) \<Rightarrow>
               animate_interval env t (s\<lparr>interval := Some (period, clock s + period)\<rparr>))
      | KeyPress info \<Rightarrow>
          if keyboard_listener s \<and> valid_response env (choices t) (key info)
          then after_response env t info s else s
      | Timeout \<Rightarrow>
          if fired s < length (armed s) \<and> finished s = []
          then endTrial t (s\<lparr>fired := Suc (fired s)\<rparr>) else s)"

text \<open>An event at a time: the clock moves to that time, then the event is delivered.\<close>

definition deliver_at :: "host_env \<Rightarrow> trial_info \<Rightarrow> nat \<times> event \<Rightarrow> run_state \<Rightarrow> run_state" where
  "deliver_at env t tev s = deliver env t (snd tev) (s\<lparr>clock := max (clock s) (fst tev)\<rparr>)"

text \<open>
  \<open>exec\<close> runs any sequence of timed events, in the order given; \<open>ticks\<close> is the repeating
  timer firing \<open>n\<close> times with nothing in between.
\<close>

definition exec :: "host_env \<Rightarrow> trial_info \<Rightarrow> (nat \<times> event) list \<Rightarrow> run_state \<Rightarrow> run_state" where
  "exec env t evs s = fold (deliver_at env t) evs s"

definition ticks :: "host_env \<Rightarrow> trial_info \<Rightarrow> nat \<Rightarrow> run_state \<Rightarrow> run_state" where
  "ticks env t n s = (animate_interval env t ^^ n) s"



section \<open>Counting frames\<close>

text \<open>
  The three variables that \<open>advance_frame\<close> writes, as functions of the state before the
  tick.
\<close>

definition next_frame :: "trial_info \<Rightarrow> run_state \<Rightarrow> int" where
  "next_frame t s =
     (if animate_frame s + 1 = int (length (stimuli t)) then 0 else animate_frame s + 1)"

definition next_reps :: "trial_info \<Rightarrow> run_state \<Rightarrow> int" where
  "next_reps t s =
     (if animate_frame s + 1 = int (length (stimuli t)) then reps s + 1 else reps s)"

definition next_show :: "trial_info \<Rightarrow> run_state \<Rightarrow> bool" where
  "next_show t s =
     (if animate_frame s + 1 = int (length (stimuli t)) \<and> sequence_reps t \<noteq> - 1
         \<and> sequence_reps t \<le> reps s + 1
      then False else showAnimation s)"

text \<open>
  Every run of the periodic callback increments the frame index once.
  \<open>advances_until_stopped\<close> lets the callback run until a run leaves \<open>showAnimation\<close> false,
  and counts the runs, that last one included: the number of increments of the frame index
  that have happened when the flag becomes false. \<open>None\<close> means that the flag is still true
  after \<open>fuel\<close> runs.
\<close>

fun advances_until_stopped :: "nat \<Rightarrow> host_env \<Rightarrow> trial_info \<Rightarrow> run_state \<Rightarrow> nat option" where
  "advances_until_stopped 0 env t s = None"
| "advances_until_stopped (Suc fuel) env t s =
     (let s' = animate_interval env t s in
      if showAnimation s' then map_option Suc (advances_until_stopped fuel env t s')
      else Some 1)"

text \<open>
  What holds of the state between any two callbacks of a trial: at most one timer is armed,
  and only behind \<open>timeoutSet\<close>, which is set only after a response; a response is recorded
  exactly when the result record is filled and the listener is gone; and the trial has
  finished, with the result record as it stands, exactly when the timer has fired, which
  is also when the repeating timer is cleared.
\<close>

definition trial_inv :: "run_state \<Rightarrow> bool" where
  "trial_inv s \<longleftrightarrow>
     length (armed s) \<le> 1 \<and>
     (armed s \<noteq> [] \<longrightarrow> timeoutSet s) \<and>
     (timeoutSet s \<longrightarrow> responded s) \<and>
     (responded s \<longleftrightarrow> trial_data s \<noteq> None) \<and>
     (responded s \<longleftrightarrow> \<not> keyboard_listener s) \<and>
     fired s \<le> length (armed s) \<and>
     (if fired s = 0 then finished s = [] \<and> interval s \<noteq> None
      else (\<exists>tm. finished s = [(tm, trial_data s)]) \<and> interval s = None)"

section \<open>A scenario\<close>

text \<open>
  The scenario of the specification: the sequence a, b, c, 100 ms per frame, two
  repetitions, no response before the animation is complete, expected key j; every other
  parameter has its default, and the feedback duration is left open. The host compares keys
  as they are and has a global \<^verbatim>\<open>jsPsych\<close>; \<open>folding_env\<close> is a host that folds case.
\<close>

definition scenario :: "int \<Rightarrow> trial_info" where
  "scenario fd =
     \<lparr>stimuli = [''a'', ''b'', ''c''], key_answer = ''j'', choices = AllKeys,
      text_answer = None, correct_text = ''Correct.'', incorrect_text = ''Wrong.'',
      frame_time = 100, sequence_reps = 2, allow_response_before_complete = False,
      feedback_duration = fd, prompt = None, render_on_canvas = True\<rparr>"

definition scenario_env :: host_env where
  "scenario_env = \<lparr>key_policy = case_sensitive, global_jsPsych = True\<rparr>"

definition folding_env :: host_env where
  "folding_env = \<lparr>key_policy = case_folding, global_jsPsych = True\<rparr>"

section \<open>The vsl-grid-scene plugin\<close>

text \<open>
  The parameters of \<^verbatim>\<open>plugin-vsl-grid-scene/src/index.ts\<close>. A cell of the grid is the
  number 0 (no image) or the path of an image.
\<close>

datatype cell = Blank | Image string

record scene_info =
  scene_stimuli :: "cell list list"
  image_size :: "int list"
  trial_duration :: int

text \<open>
  Numbers in string context, for integers below \<open>10^21\<close> in magnitude, which JavaScript
  prints without an exponent: decimal digits, a leading minus sign, and for a tenth of an integer one
  fractional digit unless the division is exact. A missing array element is
  \<^verbatim>\<open>undefined\<close>, and a tenth of it is \<^verbatim>\<open>NaN\<close>.
\<close>

definition digit_char :: "nat \<Rightarrow> char" where
  "digit_char d = char_of (48 + d)"

function show_nat :: "nat \<Rightarrow> string" where
  "show_nat n = (if n < 10 then [digit_char n] else show_nat (n div 10) @ [digit_char (n mod 10)])"
  by pat_completeness auto
termination
  by (relation "measure id") auto

definition show_int :: "int \<Rightarrow> string" where
  "show_int i = (if i < 0 then ''-'' @ show_nat (nat (- i)) else show_nat (nat i))"

definition size_at :: "int list \<Rightarrow> nat \<Rightarrow> int option" where
  "size_at xs i = (if i < length xs then Some (xs ! i) else None)"

definition show_size :: "int option \<Rightarrow> string" where
  "show_size v = (case v of None \<Rightarrow> ''undefined'' | Some i \<Rightarrow> show_int i)"

definition show_tenth :: "int option \<Rightarrow> string" where
  "show_tenth v =
     (case v of
        None \<Rightarrow> ''NaN''
      | Some i \<Rightarrow>
          if i mod 10 = 0 then show_int (i div 10)
          else (if i < 0 then ''-'' else []) @ show_nat (nat \<bar>i\<bar> div 10) @ ''.'' @
               [digit_char (nat \<bar>i\<bar> mod 10)])"

text \<open>
  \<^verbatim>\<open>pattern[row][col]\<close> for a row that exists: a column beyond the end of the row reads
  \<^verbatim>\<open>undefined\<close>, which is not 0 and prints as \<^verbatim>\<open>undefined\<close>.
\<close>

definition cell_at :: "cell list \<Rightarrow> nat \<Rightarrow> cell" where
  "cell_at r col = (if col < length r then r ! col else Image ''undefined'')"

text \<open>Lines 88 to 120: the markup of one cell.\<close>

definition cell_html :: "int list \<Rightarrow> cell list \<Rightarrow> nat \<Rightarrow> nat \<Rightarrow> string" where
  \<open>cell_html img_size r row col =
     ''<td id="jspsych-vsl-grid-scene-table-'' @ show_nat row @ ''-'' @ show_nat col @ ''" '' @
     ''style="padding: '' @ show_tenth (size_at img_size 1) @ ''px '' @
     show_tenth (size_at img_size 0) @ ''px; border: 1px solid #555;">'' @
     ''<div id="jspsych-vsl-grid-scene-table-cell-'' @ show_nat row @ ''-'' @ show_nat col @
     ''" style="width: '' @ show_size (size_at img_size 0) @ ''px; height: '' @
     show_size (size_at img_size 1) @ ''px;">'' @
     (case cell_at r col of
        Blank \<Rightarrow> []
      | Image src \<Rightarrow>
          ''<img '' @ ''src="'' @ src @ ''" style="width: '' @ show_size (size_at img_size 0) @
          ''px; height: '' @ show_size (size_at img_size 1) @ ''"></img>'') @
     ''</div>'' @ ''</td>''\<close>

text \<open>Lines 79 to 123: the markup of one row, the inner loop over the columns.\<close>

definition row_html :: "int list \<Rightarrow> nat \<Rightarrow> cell list \<Rightarrow> nat \<Rightarrow> string" where
  \<open>row_html img_size ncols r row =
     ''<tr id="jspsych-vsl-grid-scene-table-row-'' @ show_nat row @ ''" css="height: '' @
     show_size (size_at img_size 1) @ ''px;">'' @
     concat (map (cell_html img_size r row) [0..<ncols]) @
     ''</tr>''\<close>

text \<open>
  \<^verbatim>\<open>generate_stimulus\<close>: the number of columns is the length of the first row, and
  reading \<^verbatim>\<open>pattern[0].length\<close> of a grid without rows throws.
\<close>

definition generate_stimulus :: "cell list list \<Rightarrow> int list \<Rightarrow> js_error + string" where
  \<open>generate_stimulus pattern img_size =
     (case pattern of
        [] \<Rightarrow> Inl TypeError
      | first_row # _ \<Rightarrow>
          (let nrows = length pattern; ncols = length first_row in
           Inr (''<div id="jspsych-vsl-grid-scene-dummy" css="display: none;">'' @
                ''<table id="jspsych-vsl-grid-scene table" '' @
                ''style="border-collapse: collapse; margin-left: auto; margin-right: auto;">'' @
                concat (map (\<lambda>row. row_html img_size ncols (pattern ! row) row) [0..<nrows]) @
                ''</table>'' @ ''</div>'')))\<close>

text \<open>
  The state of a scene trial: the content of the display element, the delay of every
  one-shot timer the trial has armed, and the arguments of every \<^verbatim>\<open>finishTrial\<close> call.
\<close>

record scene_state =
  scene_html :: string
  scene_armed :: "nat list"
  scene_finished :: "cell list list list"

text \<open>
  \<^verbatim>\<open>trial\<close> (lines 49 to 54): the markup is generated and mounted, then the timer is
  armed. An exception of \<^verbatim>\<open>generate_stimulus\<close> leaves \<^verbatim>\<open>trial\<close> before either happens.
\<close>

definition scene_trial :: "string \<Rightarrow> scene_info \<Rightarrow> js_error + scene_state" where
  "scene_trial content t =
     (case generate_stimulus (scene_stimuli t) (image_size t) of
        Inl e \<Rightarrow> Inl e
      | Inr html \<Rightarrow>
          Inr \<lparr>scene_html = html, scene_armed = [nat (trial_duration t)], scene_finished = []\<rparr>)"

text \<open>\<^verbatim>\<open>endTrial\<close> (lines 56 to 64), the callback of that timer.\<close>

definition scene_endTrial :: "scene_info \<Rightarrow> scene_state \<Rightarrow> scene_state" where
  "scene_endTrial t s =
     s\<lparr>scene_html := [], scene_finished := scene_finished s @ [scene_stimuli t]\<rparr>"

section \<open>What each part of the periodic callback writes\<close>

text \<open>
  The parts of \<open>animate_interval\<close> write few fields of the state; the lemmas of this section
  say which, so that the proofs below need not unfold the callback again.
\<close>

lemma clear_markup_shape: "\<exists>d. clear_markup t s = s\<lparr>display_element := d\<rparr>"
proof (cases "render_on_canvas t")
  case True
  then have "clear_markup t s = s\<lparr>display_element := display_element s\<rparr>"
    by (simp add: clear_markup_def)
  then show ?thesis by blast
next
  case False
  then show ?thesis unfolding clear_markup_def by auto
qed

lemma show_prompt_shape: "\<exists>d. show_prompt t s = s\<lparr>display_element := d\<rparr>"
proof (cases "prompt t")
  case None
  then have "show_prompt t s = s\<lparr>display_element := display_element s\<rparr>"
    by (simp add: show_prompt_def)
  then show ?thesis by blast
next
  case (Some p)
  then show ?thesis unfolding show_prompt_def by (cases "render_on_canvas t") auto
qed

lemma show_feedback_shape: "\<exists>d. show_feedback t s = s\<lparr>display_element := d\<rparr>"
  unfolding show_feedback_def Let_def
  by (cases "render_on_canvas t"; cases "prompt t = None") auto

lemma show_frame_shape:
  "show_frame t s = Inl TypeError \<or> (\<exists>d. show_frame t s = Inr (s\<lparr>display_element := d\<rparr>))"
proof (cases "showAnimation s")
  case False
  then have "show_frame t s = Inr (s\<lparr>display_element := display_element s\<rparr>)"
    by (simp add: show_frame_def)
  then show ?thesis by blast
next
  case True
  then show ?thesis unfolding show_frame_def
    by (cases "render_on_canvas t"; cases "canvas_attached (display_element s)") auto
qed

lemma advance_frame_shape:
  "advance_frame t s = s\<lparr>
     animate_frame := (if animate_frame s + 1 = int (length (stimuli t)) then 0 else animate_frame s + 1),
     reps := (if animate_frame s + 1 = int (length (stimuli t)) then reps s + 1 else reps s),
     showAnimation := (if animate_frame s + 1 = int (length (stimuli t)) \<and> sequence_reps t \<noteq> - 1
                          \<and> sequence_reps t \<le> reps s + 1 then False else showAnimation s)\<rparr>"
  unfolding advance_frame_def Let_def
  by (cases "animate_frame s + 1 = int (length (stimuli t))";
      cases "sequence_reps t = - 1"; cases "sequence_reps t \<le> reps s + 1") simp_all

lemma arm_timeout_shape:
  "arm_timeout env t s = s\<lparr>
     timeoutSet := True,
     armed := (if \<not> timeoutSet s \<and> global_jsPsych env
               then armed s @ [clock s + nat (feedback_duration t)] else armed s),
     uncaught := (if \<not> timeoutSet s \<and> \<not> global_jsPsych env
               then uncaught s @ [TypeError] else uncaught s)\<rparr>"
  unfolding arm_timeout_def Let_def
  by (cases "timeoutSet s"; cases "global_jsPsych env") simp_all

lemma response_phase_shape:
  "\<exists>d ts ar un. response_phase env t s =
     s\<lparr>display_element := d, timeoutSet := ts, armed := ar, uncaught := un\<rparr>"
proof -
  have same: "\<And>d. \<exists>d' ts ar un. (s\<lparr>display_element := d\<rparr>) =
     s\<lparr>display_element := d', timeoutSet := ts, armed := ar, uncaught := un\<rparr>"
  proof -
    fix d
    have "s\<lparr>display_element := d\<rparr> =
      s\<lparr>display_element := d, timeoutSet := timeoutSet s, armed := armed s, uncaught := uncaught s\<rparr>"
      by simp
    then show "\<exists>d' ts ar un. (s\<lparr>display_element := d\<rparr>) =
     s\<lparr>display_element := d', timeoutSet := ts, armed := ar, uncaught := un\<rparr>" by blast
  qed
  obtain dp where dp: "show_prompt t s = s\<lparr>display_element := dp\<rparr>"
    using show_prompt_shape by blast
  obtain df where df: "show_feedback t s = s\<lparr>display_element := df\<rparr>"
    using show_feedback_shape by blast
  consider (a) "\<not> responded s \<and> allow_response_before_complete t"
    | (b) "\<not> responded s" "\<not> allow_response_before_complete t"
    | (c) "responded s" by blast
  then show ?thesis
  proof cases
    case a
    then have "response_phase env t s = s\<lparr>display_element := dp\<rparr> \<or>
       response_phase env t s = s\<lparr>display_element := dp\<lparr>canvas_attached := False\<rparr>\<rparr>"
      by (simp add: response_phase_def Let_def dp remove_canvas_def)
    then show ?thesis using same by metis
  next
    case b
    then have "response_phase env t s = s\<lparr>display_element := dp\<rparr> \<or>
       response_phase env t s = s\<lparr>display_element := dp\<lparr>canvas_attached := False\<rparr>\<rparr> \<or>
       response_phase env t s = s\<lparr>display_element := display_element s\<rparr>"
      by (simp add: response_phase_def Let_def dp remove_canvas_def)
    then show ?thesis using same by metis
  next
    case c
    then have "response_phase env t s = arm_timeout env t (s\<lparr>display_element := df\<rparr>)"
      by (simp add: response_phase_def df)
    then show ?thesis unfolding arm_timeout_shape by blast
  qed
qed

lemma advance_frame_next:
  "advance_frame t s = s\<lparr>animate_frame := next_frame t s, reps := next_reps t s,
     showAnimation := next_show t s\<rparr>"
  unfolding advance_frame_shape next_frame_def next_reps_def next_show_def ..

lemma animate_interval_shape:
  "\<exists>d ts ar un. animate_interval env t s =
     s\<lparr>animate_frame := next_frame t s, reps := next_reps t s, showAnimation := next_show t s,
       display_element := d, timeoutSet := ts, armed := ar, uncaught := un\<rparr>"
proof -
  obtain d0 where d0: "clear_markup t s = s\<lparr>display_element := d0\<rparr>"
    using clear_markup_shape by blast
  define s1 where "s1 = advance_frame t (s\<lparr>display_element := d0\<rparr>)"
  have nx: "next_frame t (s\<lparr>display_element := d0\<rparr>) = next_frame t s"
    "next_reps t (s\<lparr>display_element := d0\<rparr>) = next_reps t s"
    "next_show t (s\<lparr>display_element := d0\<rparr>) = next_show t s"
    by (simp_all add: next_frame_def next_reps_def next_show_def)
  have s1: "s1 = s\<lparr>animate_frame := next_frame t s, reps := next_reps t s,
       showAnimation := next_show t s,
       display_element := d0, timeoutSet := timeoutSet s, armed := armed s, uncaught := uncaught s\<rparr>"
    unfolding s1_def advance_frame_next nx by simp
  have tick: "animate_interval env t s =
     (case show_frame t s1 of Inl e \<Rightarrow> s1\<lparr>uncaught := uncaught s1 @ [e]\<rparr>
      | Inr s2 \<Rightarrow> response_phase env t s2)"
    unfolding animate_interval_def Let_def d0 s1_def ..
  from show_frame_shape[of t s1] show ?thesis
  proof
    assume "show_frame t s1 = Inl TypeError"
    then have "animate_interval env t s = s1\<lparr>uncaught := uncaught s1 @ [TypeError]\<rparr>"
      by (simp add: tick)
    also have "\<dots> = s\<lparr>animate_frame := next_frame t s, reps := next_reps t s,
       showAnimation := next_show t s,
       display_element := d0, timeoutSet := timeoutSet s, armed := armed s,
       uncaught := uncaught s @ [TypeError]\<rparr>"
      unfolding s1 by simp
    finally show ?thesis by blast
  next
    assume "\<exists>d. show_frame t s1 = Inr (s1\<lparr>display_element := d\<rparr>)"
    then obtain d where "show_frame t s1 = Inr (s1\<lparr>display_element := d\<rparr>)" by blast
    then have "animate_interval env t s = response_phase env t (s1\<lparr>display_element := d\<rparr>)"
      by (simp add: tick)
    moreover obtain d' ts ar un where "response_phase env t (s1\<lparr>display_element := d\<rparr>) =
       (s1\<lparr>display_element := d\<rparr>)\<lparr>display_element := d', timeoutSet := ts, armed := ar, uncaught := un\<rparr>"
      using response_phase_shape by blast
    ultimately have "animate_interval env t s =
       (s1\<lparr>display_element := d\<rparr>)\<lparr>display_element := d', timeoutSet := ts, armed := ar, uncaught := un\<rparr>"
      by simp
    also have "\<dots> = s\<lparr>animate_frame := next_frame t s, reps := next_reps t s,
       showAnimation := next_show t s,
       display_element := d', timeoutSet := ts, armed := ar, uncaught := un\<rparr>"
      unfolding s1 by simp
    finally show ?thesis by blast
  qed
qed

lemma tick_frame_fields:
  "animate_frame (animate_interval env t s) = next_frame t s"
  "reps (animate_interval env t s) = next_reps t s"
  "showAnimation (animate_interval env t s) = next_show t s"
proof -
  obtain d ts ar un where "animate_interval env t s =
     s\<lparr>animate_frame := next_frame t s, reps := next_reps t s, showAnimation := next_show t s,
       display_element := d, timeoutSet := ts, armed := ar, uncaught := un\<rparr>"
    using animate_interval_shape by blast
  then show "animate_frame (animate_interval env t s) = next_frame t s"
  "reps (animate_interval env t s) = next_reps t s"
  "showAnimation (animate_interval env t s) = next_show t s" by simp_all
qed

lemma tick_kept_fields:
  "responded (animate_interval env t s) = responded s"
  "correct (animate_interval env t s) = correct s"
  "trial_data (animate_interval env t s) = trial_data s"
  "clock (animate_interval env t s) = clock s"
  "interval (animate_interval env t s) = interval s"
  "fired (animate_interval env t s) = fired s"
  "keyboard_listener (animate_interval env t s) = keyboard_listener s"
  "finished (animate_interval env t s) = finished s"
proof -
  obtain d ts ar un where *: "animate_interval env t s =
     s\<lparr>animate_frame := next_frame t s, reps := next_reps t s, showAnimation := next_show t s,
       display_element := d, timeoutSet := ts, armed := ar, uncaught := un\<rparr>"
    using animate_interval_shape by blast
  show "responded (animate_interval env t s) = responded s"
  "correct (animate_interval env t s) = correct s"
  "trial_data (animate_interval env t s) = trial_data s"
  "clock (animate_interval env t s) = clock s"
  "interval (animate_interval env t s) = interval s"
  "fired (animate_interval env t s) = fired s"
  "keyboard_listener (animate_interval env t s) = keyboard_listener s"
  "finished (animate_interval env t s) = finished s"
    unfolding * by simp_all
qed

lemma response_phase_timer:
  "timeoutSet (response_phase env t s) = (timeoutSet s \<or> responded s)"
  "armed (response_phase env t s) =
     (if responded s \<and> \<not> timeoutSet s \<and> global_jsPsych env
      then armed s @ [clock s + nat (feedback_duration t)] else armed s)"
proof -
  obtain dp where dp: "show_prompt t s = s\<lparr>display_element := dp\<rparr>"
    using show_prompt_shape by blast
  obtain df where df: "show_feedback t s = s\<lparr>display_element := df\<rparr>"
    using show_feedback_shape by blast
  show "timeoutSet (response_phase env t s) = (timeoutSet s \<or> responded s)"
    by (cases "responded s")
       (simp_all add: response_phase_def Let_def dp df remove_canvas_def arm_timeout_shape)
  show "armed (response_phase env t s) =
     (if responded s \<and> \<not> timeoutSet s \<and> global_jsPsych env
      then armed s @ [clock s + nat (feedback_duration t)] else armed s)"
    by (cases "responded s")
       (simp_all add: response_phase_def Let_def dp df remove_canvas_def arm_timeout_shape)
qed

lemma tick_timer:
  "timeoutSet s \<Longrightarrow> timeoutSet (animate_interval env t s)"
  "timeoutSet s \<Longrightarrow> armed (animate_interval env t s) = armed s"
  "timeoutSet (animate_interval env t s) \<Longrightarrow> timeoutSet s \<or> responded s"
  "armed (animate_interval env t s) = armed s \<or>
     (\<not> timeoutSet s \<and> responded s \<and> timeoutSet (animate_interval env t s) \<and>
      armed (animate_interval env t s) = armed s @ [clock s + nat (feedback_duration t)])"
proof -
  obtain d0 where d0: "clear_markup t s = s\<lparr>display_element := d0\<rparr>"
    using clear_markup_shape by blast
  define s1 where "s1 = advance_frame t (s\<lparr>display_element := d0\<rparr>)"
  have s1: "timeoutSet s1 = timeoutSet s" "armed s1 = armed s" "responded s1 = responded s"
    "clock s1 = clock s"
    unfolding s1_def advance_frame_next by simp_all
  have tick: "animate_interval env t s =
     (case show_frame t s1 of Inl e \<Rightarrow> s1\<lparr>uncaught := uncaught s1 @ [e]\<rparr>
      | Inr s2 \<Rightarrow> response_phase env t s2)"
    unfolding animate_interval_def Let_def d0 s1_def ..
  have all: "(timeoutSet s \<longrightarrow> timeoutSet (animate_interval env t s)) \<and>
    (timeoutSet s \<longrightarrow> armed (animate_interval env t s) = armed s) \<and>
    (timeoutSet (animate_interval env t s) \<longrightarrow> timeoutSet s \<or> responded s) \<and>
    (armed (animate_interval env t s) = armed s \<or>
     (\<not> timeoutSet s \<and> responded s \<and> timeoutSet (animate_interval env t s) \<and>
      armed (animate_interval env t s) = armed s @ [clock s + nat (feedback_duration t)]))"
    using show_frame_shape[of t s1]
  proof
    assume "show_frame t s1 = Inl TypeError"
    then have "animate_interval env t s = s1\<lparr>uncaught := uncaught s1 @ [TypeError]\<rparr>"
      by (simp add: tick)
    then show ?thesis by (simp add: s1)
  next
    assume "\<exists>d. show_frame t s1 = Inr (s1\<lparr>display_element := d\<rparr>)"
    then obtain d where "show_frame t s1 = Inr (s1\<lparr>display_element := d\<rparr>)" by blast
    then have "animate_interval env t s = response_phase env t (s1\<lparr>display_element := d\<rparr>)"
      by (simp add: tick)
    then show ?thesis by (simp add: response_phase_timer s1)
  qed
  from all show "timeoutSet s \<Longrightarrow> timeoutSet (animate_interval env t s)" by blast
  from all show "timeoutSet s \<Longrightarrow> armed (animate_interval env t s) = armed s" by blast
  from all show "timeoutSet (animate_interval env t s) \<Longrightarrow> timeoutSet s \<or> responded s" by blast
  from all show "armed (animate_interval env t s) = armed s \<or>
     (\<not> timeoutSet s \<and> responded s \<and> timeoutSet (animate_interval env t s) \<and>
      armed (animate_interval env t s) = armed s @ [clock s + nat (feedback_duration t)])" by blast
qed

lemma after_response_ignored:
  "\<not> allow_response_before_complete t \<Longrightarrow> showAnimation s \<Longrightarrow> after_response env t info s = s"
  by (simp add: after_response_def)

lemma after_response_accepted:
  assumes "allow_response_before_complete t \<or> \<not> showAnimation s"
  shows "after_response env t info s =
     s\<lparr>correct := Some (compareKeys (key_policy env) (key_answer t) (key info)),
       responded := True,
       trial_data := Some \<lparr>data_stimulus = stimuli t, data_rt = rt info,
          data_correct = compareKeys (key_policy env) (key_answer t) (key info),
          data_response = key info\<rparr>,
       keyboard_listener := False\<rparr>"
  using assms unfolding after_response_def Let_def
  by (cases "compareKeys (key_policy env) (key_answer t) (key info)") auto

section \<open>Keys that arrive while the animation plays\<close>

text \<open>
  Claim C4. A key event delivered while \<open>showAnimation\<close> is true and
  \<open>allow_response_before_complete\<close> is false changes nothing: \<open>after_response\<close> returns the
  state it was given, so \<open>responded\<close>, \<open>correct\<close>, the result record and the registration
  of the keyboard listener are all as before, and so is everything else.
\<close>

theorem ignored_key_changes_nothing:
  assumes "\<not> allow_response_before_complete t" and "showAnimation s"
  shows "after_response env t info s = s"
  using assms by (simp add: after_response_def)

theorem ignored_key_changes_nothing_witness:
  "\<not> allow_response_before_complete (scenario 2000) \<and>
   showAnimation (trial [] (scenario 2000)) \<and>
   after_response scenario_env (scenario 2000) \<lparr>key = ''j'', rt = 150\<rparr> (trial [] (scenario 2000))
     = trial [] (scenario 2000)"
proof -
  have a: "\<not> allow_response_before_complete (scenario 2000)"
    by (simp add: scenario_def)
  have b: "showAnimation (trial [] (scenario 2000))"
    by (simp add: trial_def)
  show ?thesis
    using a b ignored_key_changes_nothing [OF a b, of scenario_env "\<lparr>key = ''j'', rt = 150\<rparr>"]
    by simp
qed

section \<open>How many ticks the animation takes\<close>

lemma scenario_fields:
  "stimuli (scenario fd) = [''a'', ''b'', ''c'']"
  "sequence_reps (scenario fd) = 2"
  "allow_response_before_complete (scenario fd) = False"
  "key_answer (scenario fd) = ''j''"
  "feedback_duration (scenario fd) = fd"
  "frame_time (scenario fd) = 100"
  "render_on_canvas (scenario fd) = True"
  "prompt (scenario fd) = None"
  "choices (scenario fd) = AllKeys"
  "text_answer (scenario fd) = None"
  "correct_text (scenario fd) = ''Correct.''"
  "incorrect_text (scenario fd) = ''Wrong.''"
  by (simp_all add: scenario_def)

lemma ticks_0: "ticks env t 0 s = s"
  by (simp add: ticks_def)

lemma ticks_Suc: "ticks env t (Suc n) s = animate_interval env t (ticks env t n s)"
  by (simp add: ticks_def)

lemma trial_counters:
  "animate_frame (trial c t) = - 1" "reps (trial c t) = 0" "showAnimation (trial c t)"
  by (simp_all add: trial_def)

lemma ticks_counters:
  fixes env t n c
  assumes L: "stimuli t \<noteq> []" and R: "1 \<le> sequence_reps t"
  defines "s \<equiv> ticks env t n (trial c t)"
  shows "int n = animate_frame s + 1 + int (length (stimuli t)) * reps s \<and>
         0 \<le> reps s \<and> animate_frame s + 1 \<le> int (length (stimuli t)) \<and>
         (if n = 0 then animate_frame s + 1 = 0 else 1 \<le> animate_frame s + 1) \<and>
         (showAnimation s \<longleftrightarrow> reps s < sequence_reps t)"
  unfolding s_def
proof (induction n)
  case 0
  show ?case using R by (simp add: ticks_0 trial_counters)
next
  case (Suc n)
  define s where "s = ticks env t n (trial c t)"
  have len: "1 \<le> int (length (stimuli t))" using L by (cases "stimuli t") simp_all
  from Suc have ih: "int n = animate_frame s + 1 + int (length (stimuli t)) * reps s"
    "0 \<le> reps s" "animate_frame s + 1 \<le> int (length (stimuli t))"
    "0 \<le> animate_frame s + 1"
    "showAnimation s \<longleftrightarrow> reps s < sequence_reps t"
    unfolding s_def by (auto split: if_splits)
  show ?case
  proof (cases "animate_frame s + 1 = int (length (stimuli t))")
    case True
    then show ?thesis
      using ih len R unfolding ticks_Suc s_def[symmetric] tick_frame_fields
        next_frame_def next_reps_def next_show_def
      by (auto simp: algebra_simps)
  next
    case False
    then show ?thesis
      using ih len R unfolding ticks_Suc s_def[symmetric] tick_frame_fields
        next_frame_def next_reps_def next_show_def
      by (auto simp: algebra_simps)
  qed
qed

lemma ticks_showAnimation:
  assumes L: "stimuli t \<noteq> []" and R: "1 \<le> sequence_reps t"
  shows "showAnimation (ticks env t n (trial c t)) \<longleftrightarrow>
         n \<le> length (stimuli t) * nat (sequence_reps t)"
proof -
  define s where "s = ticks env t n (trial c t)"
  define l where "l = int (length (stimuli t))"
  have inv: "int n = animate_frame s + 1 + l * reps s"
    "0 \<le> reps s" "animate_frame s + 1 \<le> l"
    "n \<noteq> 0 \<Longrightarrow> 1 \<le> animate_frame s + 1"
    "showAnimation s \<longleftrightarrow> reps s < sequence_reps t"
    using ticks_counters[OF L R, of n env c] unfolding s_def l_def by (auto split: if_splits)
  have l: "1 \<le> l" using L unfolding l_def by (cases "stimuli t") simp_all
  have eq: "int (length (stimuli t) * nat (sequence_reps t)) = l * sequence_reps t"
    using R unfolding l_def by simp
  show ?thesis
  proof (cases "reps s < sequence_reps t")
    case True
    then have "reps s + 1 \<le> sequence_reps t" by simp
    then have "l * (reps s + 1) \<le> l * sequence_reps t"
      using l by (intro mult_left_mono) simp_all
    then have "int n \<le> l * sequence_reps t"
      using inv(1,3) by (simp add: algebra_simps)
    then show ?thesis using True inv(5) eq unfolding s_def[symmetric] by linarith
  next
    case False
    then have "sequence_reps t \<le> reps s" by simp
    then have le: "l * sequence_reps t \<le> l * reps s"
      using l by (intro mult_left_mono) simp_all
    have "1 \<le> reps s" using False R by simp
    then have "l * 1 \<le> l * reps s" using l by (intro mult_left_mono) simp_all
    then have "n \<noteq> 0" using inv(1,3) l
      using ticks_counters[OF L R, of n env c] unfolding s_def l_def
      by (auto split: if_splits)
    then have "l * sequence_reps t < int n"
      using inv(1,4) le by linarith
    then show ?thesis using False inv(5) eq unfolding s_def[symmetric] by linarith
  qed
qed

lemma advances_from:
  assumes L: "stimuli t \<noteq> []" and R: "1 \<le> sequence_reps t"
    and k: "k \<le> length (stimuli t) * nat (sequence_reps t)"
    and fuel: "length (stimuli t) * nat (sequence_reps t) < fuel + k"
  shows "advances_until_stopped fuel env t (ticks env t k (trial c t)) =
         Some (Suc (length (stimuli t) * nat (sequence_reps t)) - k)"
  using k fuel
proof (induction fuel arbitrary: k)
  case 0
  then show ?case by simp
next
  case (Suc fuel)
  define m where "m = length (stimuli t) * nat (sequence_reps t)"
  have flag: "showAnimation (ticks env t (Suc k) (trial c t)) \<longleftrightarrow> Suc k \<le> m"
    unfolding m_def by (rule ticks_showAnimation[OF L R])
  show ?case
  proof (cases "Suc k \<le> m")
    case True
    then have "advances_until_stopped fuel env t (ticks env t (Suc k) (trial c t)) =
       Some (Suc m - Suc k)"
      using Suc.IH[of "Suc k"] Suc.prems unfolding m_def by simp
    then show ?thesis
      using True flag unfolding m_def[symmetric]
      by (simp add: ticks_Suc[symmetric] Let_def Suc_diff_le)
  next
    case False
    then have "k = m" using Suc.prems unfolding m_def by simp
    then show ?thesis
      using False flag unfolding m_def[symmetric]
      by (simp add: ticks_Suc[symmetric] Let_def)
  qed
qed

text \<open>
  Claim C1, as amended. For a sequence of length \<open>L \<ge> 1\<close> and a finite repetition target
  \<open>R \<ge> 1\<close>, \<open>showAnimation\<close> is true after \<open>n\<close> ticks exactly when \<open>n \<le> L * R\<close>: the first
  \<open>L * R\<close> ticks each advance the frame index and leave the flag true, and the flag becomes
  false in tick \<open>L * R + 1\<close>, which increments the frame index once more, finds it equal to
  \<open>L\<close> and counts the last repetition. The frame index has been incremented \<open>L * R + 1\<close>
  times when the flag becomes false, and any fuel above \<open>L * R\<close> is enough to see it.
\<close>

theorem animation_stops_on_tick_after_last_frame:
  assumes "stimuli t \<noteq> []" and "1 \<le> sequence_reps t"
  shows "(showAnimation (ticks env t n (trial c t)) \<longleftrightarrow>
            n \<le> length (stimuli t) * nat (sequence_reps t)) \<and>
         advances_until_stopped (Suc (length (stimuli t) * nat (sequence_reps t)) + extra) env t
            (trial c t) = Some (length (stimuli t) * nat (sequence_reps t) + 1)"
proof
  show "showAnimation (ticks env t n (trial c t)) \<longleftrightarrow>
            n \<le> length (stimuli t) * nat (sequence_reps t)"
    using assms by (rule ticks_showAnimation)
  have "advances_until_stopped (Suc (length (stimuli t) * nat (sequence_reps t)) + extra) env t
            (ticks env t 0 (trial c t)) = Some (Suc (length (stimuli t) * nat (sequence_reps t)) - 0)"
    using assms by (intro advances_from) simp_all
  then show "advances_until_stopped (Suc (length (stimuli t) * nat (sequence_reps t)) + extra) env t
            (trial c t) = Some (length (stimuli t) * nat (sequence_reps t) + 1)"
    by (simp add: ticks_0)
qed

theorem animation_stops_on_tick_after_last_frame_witness:
  "stimuli (scenario 2000) \<noteq> [] \<and> 1 \<le> sequence_reps (scenario 2000) \<and>
   showAnimation (ticks scenario_env (scenario 2000) 6 (trial [] (scenario 2000))) \<and>
   \<not> showAnimation (ticks scenario_env (scenario 2000) 7 (trial [] (scenario 2000))) \<and>
   advances_until_stopped 10 scenario_env (scenario 2000) (trial [] (scenario 2000)) = Some 7"
proof -
  have a: "stimuli (scenario 2000) \<noteq> []" and b: "1 \<le> sequence_reps (scenario 2000)"
    by (simp_all add: scenario_fields)
  show ?thesis
    using a b
      animation_stops_on_tick_after_last_frame [OF a b, of scenario_env 6 "[]" 3]
      animation_stops_on_tick_after_last_frame [OF a b, of scenario_env 7 "[]" 3]
    by (simp add: scenario_fields)
qed

text \<open>
  Claim C1 as stated fails already in the scenario, where \<open>L * R = 6\<close>: after six advances
  of the frame index the flag is still true, and the count of advances that have happened
  when it becomes false is 7.
\<close>

theorem six_advances_do_not_stop_animation:
  "advances_until_stopped 10 scenario_env (scenario 2000) (trial [] (scenario 2000)) = Some 7 \<and>
   length (stimuli (scenario 2000)) * nat (sequence_reps (scenario 2000)) = 6 \<and>
   showAnimation (ticks scenario_env (scenario 2000) 6 (trial [] (scenario 2000)))"
proof -
  have a: "stimuli (scenario 2000) \<noteq> []" and b: "1 \<le> sequence_reps (scenario 2000)"
    by (simp_all add: scenario_fields)
  have "advances_until_stopped 10 scenario_env (scenario 2000)
      (ticks scenario_env (scenario 2000) 0 (trial [] (scenario 2000))) = Some (Suc 6 - 0)"
    using advances_from [OF a b, of 0 10 scenario_env "[]"] by (simp add: scenario_fields)
  moreover have "showAnimation (ticks scenario_env (scenario 2000) 6 (trial [] (scenario 2000)))"
    using ticks_showAnimation [OF a b, of scenario_env 6 "[]"] by (simp add: scenario_fields)
  ultimately show ?thesis by (simp add: ticks_0 scenario_fields)
qed

section \<open>Any sequence of events\<close>

text \<open>
  Concrete runs are evaluated by unfolding the callbacks; \<open>run_defs\<close> collects their
  definitions.
\<close>

lemmas run_defs = exec_def deliver_at_def deliver_def animate_interval_def clear_markup_def
  advance_frame_def show_frame_def response_phase_def show_prompt_def remove_canvas_def
  show_feedback_def arm_timeout_def after_response_def endTrial_def trial_def
  valid_response_def compareKeys_def feedback_text_def js_replace_def to_string_def
  stimulus_at_def scenario_def scenario_env_def case_sensitive_def Let_def

lemma exec_Nil: "exec env t [] s = s"
  by (simp add: exec_def)

lemma exec_snoc: "exec env t (evs @ [e]) s = deliver_at env t e (exec env t evs s)"
  by (simp add: exec_def)

lemma deliver_at_Tick:
  "deliver_at env t (tm, Tick) s =
     (case interval s of
        None \<Rightarrow> s\<lparr>clock := max (clock s) tm\<rparr>
      | Some (p, due) \<Rightarrow>
          animate_interval env t
            (s\<lparr>clock := max (clock s) tm, interval := Some (p, max (clock s) tm + p)\<rparr>))"
  by (simp add: deliver_at_def deliver_def split: option.splits)

lemma deliver_at_KeyPress:
  "deliver_at env t (tm, KeyPress info) s =
     (if keyboard_listener s \<and> valid_response env (choices t) (key info)
      then after_response env t info (s\<lparr>clock := max (clock s) tm\<rparr>)
      else s\<lparr>clock := max (clock s) tm\<rparr>)"
  by (simp add: deliver_at_def deliver_def)

lemma deliver_at_Timeout:
  "deliver_at env t (tm, Timeout) s =
     (if fired s < length (armed s) \<and> finished s = []
      then endTrial t (s\<lparr>clock := max (clock s) tm, fired := Suc (fired s)\<rparr>)
      else s\<lparr>clock := max (clock s) tm\<rparr>)"
  by (simp add: deliver_at_def deliver_def)

lemma trial_inv_init: "trial_inv (trial c t)"
  by (simp add: trial_inv_def trial_def)

lemma trial_inv_clock: "trial_inv (s\<lparr>clock := x\<rparr>) = trial_inv s"
  by (simp add: trial_inv_def)

lemma trial_inv_tick:
  assumes "trial_inv s" and "interval s = Some (p, due)"
  shows "trial_inv (animate_interval env t (s\<lparr>clock := x, interval := Some (p, y)\<rparr>))"
proof -
  define s0 where "s0 = s\<lparr>clock := x, interval := Some (p, y)\<rparr>"
  define s' where "s' = animate_interval env t s0"
  have kept: "responded s' = responded s" "trial_data s' = trial_data s"
    "fired s' = fired s" "keyboard_listener s' = keyboard_listener s"
    "finished s' = finished s" "interval s' = Some (p, y)"
    unfolding s'_def tick_kept_fields by (simp_all add: s0_def)
  have t1: "timeoutSet s \<Longrightarrow> timeoutSet s'" "timeoutSet s \<Longrightarrow> armed s' = armed s"
    "timeoutSet s' \<Longrightarrow> timeoutSet s \<or> responded s"
    "armed s' = armed s \<or> (\<not> timeoutSet s \<and> responded s \<and> timeoutSet s' \<and>
        armed s' = armed s @ [clock s0 + nat (feedback_duration t)])"
    using tick_timer[where s=s0 and env=env and t=t] unfolding s'_def by (simp_all add: s0_def)
  have f0: "fired s = 0" using assms by (auto simp: trial_inv_def split: if_splits)
  show ?thesis
    unfolding s'_def[symmetric] s0_def[symmetric]
    using assms(1) t1 f0 unfolding trial_inv_def kept
    by (auto split: if_splits)
qed

lemma trial_inv_key:
  assumes "trial_inv s" and "keyboard_listener s"
  shows "trial_inv (after_response env t info s)"
proof (cases "allow_response_before_complete t \<or> \<not> showAnimation s")
  case True
  show ?thesis
    using assms unfolding after_response_accepted[OF True] trial_inv_def
    by (auto split: if_splits)
next
  case False
  then show ?thesis using assms by (simp add: after_response_ignored)
qed

lemma trial_inv_timeout:
  assumes "trial_inv s" and "fired s < length (armed s)" and "finished s = []"
  shows "trial_inv (endTrial t (s\<lparr>clock := x, fired := Suc (fired s)\<rparr>))"
  using assms unfolding trial_inv_def endTrial_def
  by (auto split: if_splits)

lemma trial_inv_deliver_at:
  assumes "trial_inv s"
  shows "trial_inv (deliver_at env t e s)"
proof (cases e)
  case (Pair tm ev)
  show ?thesis
  proof (cases ev)
    case Tick
    show ?thesis
    proof (cases "interval s")
      case None
      then show ?thesis using assms by (simp add: Pair Tick deliver_at_Tick trial_inv_clock)
    next
      case (Some pd)
      obtain p due where pd: "pd = (p, due)" by (cases pd)
      show ?thesis
        using trial_inv_tick[OF assms, of p due env t]
        by (simp add: Pair Tick deliver_at_Tick Some pd)
    qed
  next
    case (KeyPress info)
    show ?thesis
      using assms trial_inv_key[of "s\<lparr>clock := max (clock s) tm\<rparr>" env t info]
      by (simp add: Pair KeyPress deliver_at_KeyPress trial_inv_clock)
  next
    case Timeout
    show ?thesis
      using assms trial_inv_timeout[of s t "max (clock s) tm"]
      by (simp add: Pair Timeout deliver_at_Timeout trial_inv_clock)
  qed
qed

lemma trial_inv_exec: "trial_inv (exec env t evs (trial c t))"
proof (induction evs rule: rev_induct)
  case Nil
  show ?case by (simp add: exec_Nil trial_inv_init)
next
  case (snoc e evs)
  then show ?case by (simp add: exec_snoc trial_inv_deliver_at)
qed

lemma after_response_frame:
  "animate_frame (after_response env t info s) = animate_frame s"
  "reps (after_response env t info s) = reps s"
  "showAnimation (after_response env t info s) = showAnimation s"
  "armed (after_response env t info s) = armed s"
  "fired (after_response env t info s) = fired s"
  "finished (after_response env t info s) = finished s"
  "interval (after_response env t info s) = interval s"
  by (cases "allow_response_before_complete t \<or> \<not> showAnimation s";
      simp add: after_response_accepted after_response_ignored)+

lemma endTrial_frame:
  "animate_frame (endTrial t s) = animate_frame s"
  "reps (endTrial t s) = reps s"
  "showAnimation (endTrial t s) = showAnimation s"
  "armed (endTrial t s) = armed s"
  "responded (endTrial t s) = responded s"
  "trial_data (endTrial t s) = trial_data s"
  by (simp_all add: endTrial_def)

lemma deliver_at_showAnimation:
  "showAnimation (deliver_at env t e s) =
     (if snd e = Tick \<and> interval s \<noteq> None then next_show t s else showAnimation s)"
proof (cases e)
  case (Pair tm ev)
  show ?thesis
  proof (cases ev)
    case Tick
    show ?thesis
      by (cases "interval s")
         (auto simp: Pair Tick deliver_at_Tick tick_frame_fields next_show_def)
  next
    case (KeyPress info)
    show ?thesis by (simp add: Pair KeyPress deliver_at_KeyPress after_response_frame)
  next
    case Timeout
    show ?thesis by (simp add: Pair Timeout deliver_at_Timeout endTrial_frame)
  qed
qed

lemma deliver_at_animate_frame:
  "animate_frame (deliver_at env t e s) =
     (if snd e = Tick \<and> interval s \<noteq> None then next_frame t s else animate_frame s)"
proof (cases e)
  case (Pair tm ev)
  show ?thesis
  proof (cases ev)
    case Tick
    show ?thesis
      by (cases "interval s")
         (auto simp: Pair Tick deliver_at_Tick tick_frame_fields next_frame_def)
  next
    case (KeyPress info)
    show ?thesis by (simp add: Pair KeyPress deliver_at_KeyPress after_response_frame)
  next
    case Timeout
    show ?thesis by (simp add: Pair Timeout deliver_at_Timeout endTrial_frame)
  qed
qed

lemma exec_kept_by_tick:
  "responded (deliver_at env t (tm, Tick) s) = responded s"
  "trial_data (deliver_at env t (tm, Tick) s) = trial_data s"
  "correct (deliver_at env t (tm, Tick) s) = correct s"
  "finished (deliver_at env t (tm, Tick) s) = finished s"
  by (cases "interval s"; simp add: deliver_at_Tick tick_kept_fields split: prod.splits)+

lemma response_provenance:
  "responded (exec env t evs (trial c t)) \<longrightarrow>
     (\<exists>tk info. (tk, KeyPress info) \<in> set evs \<and>
        trial_data (exec env t evs (trial c t)) =
          Some \<lparr>data_stimulus = stimuli t, data_rt = rt info,
                data_correct = compareKeys (key_policy env) (key_answer t) (key info),
                data_response = key info\<rparr> \<and>
        correct (exec env t evs (trial c t)) =
          Some (compareKeys (key_policy env) (key_answer t) (key info)))"
proof (induction evs rule: rev_induct)
  case Nil
  show ?case by (simp add: exec_Nil trial_def)
next
  case (snoc e evs)
  obtain tm ev where e: "e = (tm, ev)" by (cases e)
  define s where "s = exec env t evs (trial c t)"
  note ih = snoc.IH[folded s_def]
  show ?case
  proof (cases ev)
    case Tick
    then show ?thesis
      using ih unfolding exec_snoc s_def[symmetric] e
      by (auto simp: exec_kept_by_tick)
  next
    case Timeout
    then show ?thesis
      using ih unfolding exec_snoc s_def[symmetric] e
      by (auto simp: deliver_at_Timeout endTrial_def)
  next
    case (KeyPress info)
    define s0 where "s0 = s\<lparr>clock := max (clock s) tm\<rparr>"
    have s0: "responded s0 = responded s" "trial_data s0 = trial_data s"
      "correct s0 = correct s" "showAnimation s0 = showAnimation s"
      by (simp_all add: s0_def)
    show ?thesis
    proof (cases "keyboard_listener s \<and> valid_response env (choices t) (key info) \<and>
        (allow_response_before_complete t \<or> \<not> showAnimation s)")
      case True
      then have acc: "allow_response_before_complete t \<or> \<not> showAnimation s0"
        by (simp add: s0)
      have "deliver_at env t e s = after_response env t info s0"
        using True by (simp add: e KeyPress deliver_at_KeyPress s0_def)
      then show ?thesis
        unfolding exec_snoc s_def[symmetric] after_response_accepted[OF acc]
        by (auto simp: e KeyPress)
    next
      case False
      then have "deliver_at env t e s = s0"
        by (auto simp: e KeyPress deliver_at_KeyPress s0_def after_response_ignored)
      then show ?thesis
        using ih unfolding exec_snoc s_def[symmetric]
        by (auto simp: s0)
    qed
  qed
qed

lemma finished_provenance:
  "finished (exec env t evs (trial c t)) \<noteq> [] \<Longrightarrow> Timeout \<in> snd ` set evs"
proof (induction evs rule: rev_induct)
  case Nil
  then show ?case by (simp add: exec_Nil trial_def)
next
  case (snoc e evs)
  obtain tm ev where e: "e = (tm, ev)" by (cases e)
  show ?case
  proof (cases ev)
    case Tick
    then show ?thesis using snoc by (simp add: exec_snoc e exec_kept_by_tick)
  next
    case (KeyPress info)
    then show ?thesis using snoc
      by (simp add: exec_snoc e deliver_at_KeyPress after_response_frame split: if_splits)
  next
    case Timeout
    then show ?thesis by (simp add: e)
  qed
qed

section \<open>An unbounded animation\<close>

lemma unbounded_tick:
  "sequence_reps t = - 1 \<Longrightarrow> showAnimation (animate_interval env t s) = showAnimation s"
  by (simp add: tick_frame_fields next_show_def)

lemma unbounded_exec:
  assumes "sequence_reps t = - 1"
  shows "showAnimation (exec env t evs (trial c t))"
proof (induction evs rule: rev_induct)
  case Nil
  show ?case by (simp add: exec_Nil trial_counters)
next
  case (snoc e evs)
  then show ?case using assms
    by (simp add: exec_snoc deliver_at_showAnimation next_show_def)
qed

text \<open>
  Claim C5. When \<open>sequence_reps\<close> is \<open>-1\<close>, no run of the periodic callback changes
  \<open>showAnimation\<close>, whatever the state it starts from; so the flag, true when the trial
  starts, is true after any number of ticks and after any sequence of ticks, key presses
  and timeouts: the animation never stops on its own.
\<close>

theorem unbounded_animation_never_stops:
  assumes "sequence_reps t = - 1"
  shows "showAnimation (animate_interval env t s) = showAnimation s \<and>
         showAnimation (ticks env t n (trial c t)) \<and>
         showAnimation (exec env t evs (trial c t))"
proof (intro conjI)
  show "showAnimation (animate_interval env t s) = showAnimation s"
    using assms by (rule unbounded_tick)
  show "showAnimation (ticks env t n (trial c t))"
    using assms by (induction n) (simp_all add: ticks_0 ticks_Suc trial_counters unbounded_tick)
  show "showAnimation (exec env t evs (trial c t))"
    using assms by (rule unbounded_exec)
qed

theorem unbounded_animation_never_stops_witness:
  "sequence_reps ((scenario 2000)\<lparr>sequence_reps := - 1\<rparr>) = - 1 \<and>
   showAnimation (ticks scenario_env ((scenario 2000)\<lparr>sequence_reps := - 1\<rparr>) 1000
     (trial [] ((scenario 2000)\<lparr>sequence_reps := - 1\<rparr>))) \<and>
   showAnimation (exec scenario_env ((scenario 2000)\<lparr>sequence_reps := - 1\<rparr>)
     [(100, Tick), (150, KeyPress \<lparr>key = ''j'', rt = 150\<rparr>), (200, Tick), (300, Tick), (400, Tick)]
     (trial [] ((scenario 2000)\<lparr>sequence_reps := - 1\<rparr>)))"
proof -
  have a: "sequence_reps ((scenario 2000)\<lparr>sequence_reps := - 1\<rparr>) = - 1"
    by simp
  show ?thesis
    using a unbounded_animation_never_stops [OF a, of scenario_env
      "trial [] ((scenario 2000)\<lparr>sequence_reps := - 1\<rparr>)" 1000 "[]"
      "[(100, Tick), (150, KeyPress \<lparr>key = ''j'', rt = 150\<rparr>), (200, Tick), (300, Tick), (400, Tick)]"]
    by blast
qed

section \<open>The frame index while the animation plays\<close>

lemma no_tick_yet:
  assumes "Tick \<notin> snd ` set evs"
  shows "animate_frame (exec env t evs (trial c t)) = - 1 \<and>
         showAnimation (exec env t evs (trial c t)) \<and>
         armed (exec env t evs (trial c t)) = []"
  using assms
proof (induction evs rule: rev_induct)
  case Nil
  show ?case by (simp add: exec_Nil trial_counters) (simp add: trial_def)
next
  case (snoc e evs)
  obtain tm ev where e: "e = (tm, ev)" by (cases e)
  from snoc.prems have ev: "ev \<noteq> Tick" and rest: "Tick \<notin> snd ` set evs"
    by (auto simp: e)
  define s where "s = exec env t evs (trial c t)"
  have ih: "animate_frame s = - 1" "showAnimation s" "armed s = []"
    using snoc.IH[OF rest] unfolding s_def by simp_all
  have "armed (deliver_at env t e s) = []"
    using ev ih(3)
    by (cases ev) (simp_all add: e deliver_at_KeyPress deliver_at_Timeout after_response_frame)
  then show ?case
    using ev ih unfolding exec_snoc s_def[symmetric]
    by (simp add: deliver_at_showAnimation deliver_at_animate_frame e)
qed

lemma first_tick_enabled:
  assumes "armed (exec env t evs (trial c t)) = []"
  shows "interval (exec env t evs (trial c t)) \<noteq> None"
  using trial_inv_exec[of env t evs c] assms
  by (auto simp: trial_inv_def split: if_splits)

lemma frame_in_range_exec:
  assumes L: "stimuli t \<noteq> []"
  shows "- 1 \<le> animate_frame (exec env t evs (trial c t)) \<and>
         animate_frame (exec env t evs (trial c t)) < int (length (stimuli t)) \<and>
         (Tick \<in> snd ` set evs \<longrightarrow> 0 \<le> animate_frame (exec env t evs (trial c t)))"
proof (induction evs rule: rev_induct)
  case Nil
  show ?case by (simp add: exec_Nil trial_counters)
next
  case (snoc e evs)
  obtain tm ev where e: "e = (tm, ev)" by (cases e)
  define s where "s = exec env t evs (trial c t)"
  have ih: "- 1 \<le> animate_frame s" "animate_frame s < int (length (stimuli t))"
    "Tick \<in> snd ` set evs \<Longrightarrow> 0 \<le> animate_frame s"
    using snoc.IH unfolding s_def by simp_all
  have len: "1 \<le> int (length (stimuli t))" using L by (cases "stimuli t") simp_all
  show ?case
  proof (cases "ev = Tick")
    case False
    then show ?thesis
      using ih unfolding exec_snoc s_def[symmetric]
      by (auto simp: deliver_at_animate_frame e)
  next
    case True
    show ?thesis
    proof (cases "Tick \<in> snd ` set evs")
      case True
      then show ?thesis
        using ih len unfolding exec_snoc s_def[symmetric]
        by (auto simp: deliver_at_animate_frame e next_frame_def)
    next
      case False
      then have "interval s \<noteq> None"
        using no_tick_yet[OF False, of env t c] first_tick_enabled[of env t evs c]
        unfolding s_def by simp
      then show ?thesis
        using ih len True unfolding exec_snoc s_def[symmetric]
        by (auto simp: deliver_at_animate_frame e next_frame_def)
    qed
  qed
qed

text \<open>
  Claim C8, as amended. For a sequence of length \<open>L \<ge> 1\<close>, at every point of a trial at
  which \<open>showAnimation\<close> is true: before the first tick the frame index is \<open>-1\<close>, the value
  it is initialised with, and from the first tick on it lies in \<open>[0, L)\<close>. The points of a
  trial are the states between callbacks, after any sequence of events.
\<close>

theorem frame_index_in_range_after_first_tick:
  assumes "stimuli t \<noteq> []" and "showAnimation (exec env t evs (trial c t))"
  shows "if Tick \<in> snd ` set evs
         then 0 \<le> animate_frame (exec env t evs (trial c t)) \<and>
              animate_frame (exec env t evs (trial c t)) < int (length (stimuli t))
         else animate_frame (exec env t evs (trial c t)) = - 1"
  using frame_in_range_exec[OF assms(1), of env evs c] no_tick_yet[of evs env t c]
  by auto

theorem frame_index_in_range_after_first_tick_witness:
  "stimuli (scenario 2000) \<noteq> [] \<and>
   showAnimation (exec scenario_env (scenario 2000) [(100, Tick), (200, Tick)]
     (trial [] (scenario 2000))) \<and>
   0 \<le> animate_frame (exec scenario_env (scenario 2000) [(100, Tick), (200, Tick)]
     (trial [] (scenario 2000))) \<and>
   animate_frame (exec scenario_env (scenario 2000) [(100, Tick), (200, Tick)]
     (trial [] (scenario 2000))) < int (length (stimuli (scenario 2000)))"
proof -
  have a: "stimuli (scenario 2000) \<noteq> []"
    by (simp add: scenario_fields)
  have b: "showAnimation (exec scenario_env (scenario 2000) [(100, Tick), (200, Tick)]
     (trial [] (scenario 2000)))"
    by (simp add: run_defs)
  show ?thesis
    using a b frame_index_in_range_after_first_tick [OF a b]
    by simp
qed

text \<open>
  Claim C8 as stated fails at the start of every trial: until the first tick the animation
  is on and the frame index is \<open>-1\<close>, which is negative.
\<close>

theorem frame_index_negative_before_first_tick:
  "showAnimation (trial [] (scenario 2000)) \<and>
   animate_frame (trial [] (scenario 2000)) = - 1 \<and>
   \<not> 0 \<le> animate_frame (trial [] (scenario 2000))"
  by (simp add: trial_def)

section \<open>The timer that ends the trial\<close>

text \<open>
  Claim C3. In every trial, whatever events arrive and in whatever order, the one-shot
  timer that ends the trial is armed at most once; in particular further ticks after the
  response do not arm it again.
\<close>

theorem end_timer_armed_at_most_once:
  "length (armed (exec env t evs (trial c t))) \<le> 1"
  using trial_inv_exec[of env t evs c] by (simp add: trial_inv_def)

theorem end_timer_armed_at_most_once_witness:
  "length (armed (exec scenario_env (scenario 2000)
     [(100, Tick), (200, Tick), (300, Tick), (400, Tick), (500, Tick), (600, Tick), (700, Tick),
      (750, KeyPress \<lparr>key = ''j'', rt = 750\<rparr>), (800, Tick), (900, Tick), (1000, Tick)]
     (trial [] (scenario 2000)))) \<le> 1 \<and>
   armed (exec scenario_env (scenario 2000)
     [(100, Tick), (200, Tick), (300, Tick), (400, Tick), (500, Tick), (600, Tick), (700, Tick),
      (750, KeyPress \<lparr>key = ''j'', rt = 750\<rparr>), (800, Tick), (900, Tick), (1000, Tick)]
     (trial [] (scenario 2000))) = [2800]"
proof
  show "length (armed (exec scenario_env (scenario 2000)
     [(100, Tick), (200, Tick), (300, Tick), (400, Tick), (500, Tick), (600, Tick), (700, Tick),
      (750, KeyPress \<lparr>key = ''j'', rt = 750\<rparr>), (800, Tick), (900, Tick), (1000, Tick)]
     (trial [] (scenario 2000)))) \<le> 1"
    by (rule end_timer_armed_at_most_once)
  show "armed (exec scenario_env (scenario 2000)
     [(100, Tick), (200, Tick), (300, Tick), (400, Tick), (500, Tick), (600, Tick), (700, Tick),
      (750, KeyPress \<lparr>key = ''j'', rt = 750\<rparr>), (800, Tick), (900, Tick), (1000, Tick)]
     (trial [] (scenario 2000))) = [2800]"
    by (simp add: run_defs)
qed

text \<open>
  Claim C10. The trial ends only after a response: the timer that ends it is armed only
  once \<open>responded\<close> is true and a tick has run, \<open>finishTrial\<close> is called at most once and
  only when that timer has fired, and the record it receives is the one that
  \<open>after_response\<close> built from a key press of the trial, with the stimulus sequence, the
  reaction time, the correct flag and the key. An empty record is never delivered.
\<close>

theorem trial_ends_only_after_response:
  "(armed (exec env t evs (trial c t)) = [] \<or>
      (responded (exec env t evs (trial c t)) \<and> Tick \<in> snd ` set evs)) \<and>
   (finished (exec env t evs (trial c t)) = [] \<or>
      (\<exists>tm tk info.
         finished (exec env t evs (trial c t)) =
           [(tm, Some \<lparr>data_stimulus = stimuli t, data_rt = rt info,
                       data_correct = compareKeys (key_policy env) (key_answer t) (key info),
                       data_response = key info\<rparr>)] \<and>
         (tk, KeyPress info) \<in> set evs \<and> Timeout \<in> snd ` set evs \<and>
         armed (exec env t evs (trial c t)) \<noteq> []))"
proof -
  define s where "s = exec env t evs (trial c t)"
  have inv: "trial_inv s" unfolding s_def by (rule trial_inv_exec)
  have prov: "responded s \<Longrightarrow> \<exists>tk info. (tk, KeyPress info) \<in> set evs \<and>
        trial_data s =
          Some \<lparr>data_stimulus = stimuli t, data_rt = rt info,
                data_correct = compareKeys (key_policy env) (key_answer t) (key info),
                data_response = key info\<rparr>"
    using response_provenance[of env t evs c] unfolding s_def by blast
  have a: "armed s = [] \<or> (responded s \<and> Tick \<in> snd ` set evs)"
  proof (cases "armed s = []")
    case False
    then have "responded s" using inv by (auto simp: trial_inv_def)
    moreover have "Tick \<in> snd ` set evs"
      using False no_tick_yet[of evs env t c] unfolding s_def by blast
    ultimately show ?thesis by simp
  qed simp
  have b: "finished s = [] \<or>
      (\<exists>tm tk info.
         finished s =
           [(tm, Some \<lparr>data_stimulus = stimuli t, data_rt = rt info,
                       data_correct = compareKeys (key_policy env) (key_answer t) (key info),
                       data_response = key info\<rparr>)] \<and>
         (tk, KeyPress info) \<in> set evs \<and> Timeout \<in> snd ` set evs \<and> armed s \<noteq> [])"
  proof (cases "finished s = []")
    case False
    then have f: "fired s \<noteq> 0" using inv by (auto simp: trial_inv_def split: if_splits)
    then obtain tm where tm: "finished s = [(tm, trial_data s)]"
      using inv by (auto simp: trial_inv_def split: if_splits)
    have ar: "armed s \<noteq> []" using f inv by (auto simp: trial_inv_def)
    then have "responded s" using inv by (auto simp: trial_inv_def)
    then obtain tk info where "(tk, KeyPress info) \<in> set evs" "trial_data s =
          Some \<lparr>data_stimulus = stimuli t, data_rt = rt info,
                data_correct = compareKeys (key_policy env) (key_answer t) (key info),
                data_response = key info\<rparr>"
      using prov by blast
    moreover have "Timeout \<in> snd ` set evs"
      using False finished_provenance[of env t evs c] unfolding s_def by blast
    ultimately show ?thesis using tm ar by auto
  qed simp
  show ?thesis using a b unfolding s_def by blast
qed

theorem trial_ends_only_after_response_witness:
  "finished (exec scenario_env (scenario 2000)
     [(100, Tick), (200, Tick), (300, Tick), (400, Tick), (500, Tick), (600, Tick), (700, Tick),
      (750, KeyPress \<lparr>key = ''j'', rt = 750\<rparr>), (800, Tick), (2800, Timeout)]
     (trial [] (scenario 2000))) =
     [(2800, Some \<lparr>data_stimulus = [''a'', ''b'', ''c''], data_rt = 750, data_correct = True,
                   data_response = ''j''\<rparr>)] \<and>
   responded (exec scenario_env (scenario 2000)
     [(100, Tick), (200, Tick), (300, Tick), (400, Tick), (500, Tick), (600, Tick), (700, Tick),
      (750, KeyPress \<lparr>key = ''j'', rt = 750\<rparr>), (800, Tick), (2800, Timeout)]
     (trial [] (scenario 2000)))"
  using trial_ends_only_after_response [of scenario_env "scenario 2000"
     "[(100, Tick), (200, Tick), (300, Tick), (400, Tick), (500, Tick), (600, Tick), (700, Tick),
      (750, KeyPress \<lparr>key = ''j'', rt = 750\<rparr>), (800, Tick), (2800, Timeout)]" "[]"]
  by (simp add: run_defs)

section \<open>The scenario on the host's clock\<close>














section \<open>The feedback text\<close>

text \<open>
  \<open>split_first\<close> does find the pattern, a replacement without a dollar sign is inserted as
  it is, and a template without the token is left alone; so for answer labels without a
  dollar sign the feedback text is the selected template with its first \<^verbatim>\<open>%ANS%\<close>
  replaced by the label.
\<close>

lemma split_first_sound:
  "split_first pat s = Some (front, back) \<Longrightarrow> s = front @ pat @ back"
proof (induction s arbitrary: front)
  case Nil
  then show ?case by (simp split: if_splits)
next
  case (Cons c cs)
  show ?case
  proof (cases "starts_with pat (c # cs)")
    case True
    have sw: "\<And>p s. starts_with p s \<Longrightarrow> s = p @ drop (length p) s"
    proof -
      fix p s show "starts_with p s \<Longrightarrow> s = p @ drop (length p) s"
        by (induction p s rule: starts_with.induct) simp_all
    qed
    from True Cons.prems have "front = []" "back = drop (length pat) (c # cs)" by simp_all
    then show ?thesis using sw[OF True] by simp
  next
    case False
    then obtain f where "split_first pat cs = Some (f, back)" "front = c # f"
      using Cons.prems by (auto split: option.splits)
    then show ?thesis using Cons.IH by simp
  qed
qed

lemma get_substitution_plain:
  "CHR ''$'' \<notin> set r \<Longrightarrow> get_substitution m f b r = r"
  by (induction m f b r rule: get_substitution.induct) auto

lemma js_replace_no_token:
  "split_first pat s = None \<Longrightarrow> js_replace pat r s = s"
  by (simp add: js_replace_def)

lemma js_replace_plain:
  "split_first pat s = Some (front, back) \<Longrightarrow> CHR ''$'' \<notin> set r \<Longrightarrow>
   js_replace pat r s = front @ r @ back"
  by (simp add: js_replace_def get_substitution_plain)

lemma feedback_text_template:
  "feedback_text t (Some True) = js_replace ''%ANS%'' (to_string (text_answer t)) (correct_text t)"
  "feedback_text t (Some False) = js_replace ''%ANS%'' (to_string (text_answer t)) (incorrect_text t)"
  by (simp_all add: feedback_text_def)

lemma feedback_text_example:
  "feedback_text ((scenario 2000)\<lparr>correct_text := ''Correct! Answer: %ANS%'',
      text_answer := Some ''cat''\<rparr>) (Some True) = ''Correct! Answer: cat''"
  by (simp add: feedback_text_def js_replace_def to_string_def)

text \<open>
  Claim C6 does not hold of the code for every answer label, because
  \<^verbatim>\<open>String.prototype.replace\<close> expands dollar patterns in its replacement argument:
  with the template \<^verbatim>\<open>Correct! Answer: %ANS%\<close>, the label \<^verbatim>\<open>$$\<close> yields
  \<^verbatim>\<open>Correct! Answer: $\<close>, and the label \<^verbatim>\<open>$&\<close> yields the template itself, instead
  of the template with the token replaced by the label.
\<close>

theorem feedback_text_expands_dollar_patterns:
  "feedback_text ((scenario 2000)\<lparr>correct_text := ''Correct! Answer: %ANS%'',
      text_answer := Some ''$$''\<rparr>) (Some True) = ''Correct! Answer: $'' \<and>
   feedback_text ((scenario 2000)\<lparr>correct_text := ''Correct! Answer: %ANS%'',
      text_answer := Some ''$&''\<rparr>) (Some True) = ''Correct! Answer: %ANS%''"
  by (simp add: feedback_text_def js_replace_def to_string_def)

section \<open>Scoring the response\<close>

text \<open>
  Claim C7, as amended. For every key event that \<open>after_response\<close> accepts, \<open>correct\<close> is
  what the host's \<^verbatim>\<open>compareKeys\<close> returns for the expected key and the observed key;
  it is equality of the two keys as case-sensitive strings on a host whose policy compares
  the keys as they are.
\<close>

theorem correct_is_compareKeys:
  assumes "allow_response_before_complete t \<or> \<not> showAnimation s"
  shows "correct (after_response env t info s) =
           Some (compareKeys (key_policy env) (key_answer t) (key info)) \<and>
         correct (after_response (env\<lparr>key_policy := case_sensitive\<rparr>) t info s) =
           Some (key_answer t = key info)"
  unfolding after_response_accepted[OF assms]
  by (simp add: compareKeys_def case_sensitive_def)

theorem correct_is_compareKeys_witness:
  "(allow_response_before_complete (scenario 2000) \<or>
      \<not> showAnimation (ticks scenario_env (scenario 2000) 7 (trial [] (scenario 2000)))) \<and>
   correct (after_response scenario_env (scenario 2000) \<lparr>key = ''j'', rt = 750\<rparr>
      (ticks scenario_env (scenario 2000) 7 (trial [] (scenario 2000)))) = Some True \<and>
   correct (after_response scenario_env (scenario 2000) \<lparr>key = ''J'', rt = 750\<rparr>
      (ticks scenario_env (scenario 2000) 7 (trial [] (scenario 2000)))) = Some False"
proof -
  have "\<not> showAnimation (ticks scenario_env (scenario 2000) 7 (trial [] (scenario 2000)))"
    using ticks_showAnimation[of "scenario 2000" scenario_env 7 "[]"]
    by (simp add: scenario_fields)
  then have a: "allow_response_before_complete (scenario 2000) \<or>
      \<not> showAnimation (ticks scenario_env (scenario 2000) 7 (trial [] (scenario 2000)))"
    by simp
  show ?thesis
    using a correct_is_compareKeys [OF a, of scenario_env "\<lparr>key = ''j'', rt = 750\<rparr>"]
      correct_is_compareKeys [OF a, of scenario_env "\<lparr>key = ''J'', rt = 750\<rparr>"]
    by (simp add: scenario_fields scenario_env_def compareKeys_def case_sensitive_def)
qed

text \<open>
  Claim C7 as stated fails on a host whose policy folds case: in the scenario, after the
  animation, the key J is scored correct against the expected key j, although the two
  strings differ.
\<close>

theorem case_folding_host_scores_upper_case_correct:
  "correct (after_response folding_env (scenario 2000) \<lparr>key = ''J'', rt = 750\<rparr>
      (ticks folding_env (scenario 2000) 7 (trial [] (scenario 2000)))) = Some True \<and>
   key_answer (scenario 2000) \<noteq> ''J''"
proof -
  have "\<not> showAnimation (ticks folding_env (scenario 2000) 7 (trial [] (scenario 2000)))"
    using ticks_showAnimation[of "scenario 2000" folding_env 7 "[]"]
    by (simp add: scenario_fields)
  then have a: "allow_response_before_complete (scenario 2000) \<or>
      \<not> showAnimation (ticks folding_env (scenario 2000) 7 (trial [] (scenario 2000)))"
    by simp
  show ?thesis
    unfolding after_response_accepted[OF a]
    by (simp add: compareKeys_def folding_env_def case_folding_def lower_char_def
        scenario_fields)
qed

section \<open>The grid scene\<close>

text \<open>
  Claim C9, as amended. For every grid with at least one row and every trial duration,
  \<^verbatim>\<open>trial\<close> mounts the markup and arms exactly one timer, with the trial duration as
  its delay (a negative duration counts as 0); the callback of that timer empties the
  display element and passes the grid it was given, unchanged, to \<^verbatim>\<open>finishTrial\<close>.
\<close>

theorem scene_trial_arms_one_timer:
  assumes "scene_stimuli t \<noteq> []"
  shows "\<exists>s. scene_trial content t = Inr s \<and>
           scene_armed s = [nat (trial_duration t)] \<and>
           scene_finished s = [] \<and>
           scene_html (scene_endTrial t s) = [] \<and>
           scene_finished (scene_endTrial t s) = [scene_stimuli t]"
  using assms
  by (cases "scene_stimuli t")
     (simp_all add: scene_trial_def generate_stimulus_def scene_endTrial_def Let_def)

theorem scene_trial_arms_one_timer_witness:
  "scene_stimuli \<lparr>scene_stimuli = [[Image ''a.png'', Blank], [Blank, Image ''b.png'']],
      image_size = [100, 100], trial_duration = 2000\<rparr> \<noteq> [] \<and>
   (\<exists>s. scene_trial ''old''
          \<lparr>scene_stimuli = [[Image ''a.png'', Blank], [Blank, Image ''b.png'']],
           image_size = [100, 100], trial_duration = 2000\<rparr> = Inr s \<and>
        scene_armed s = [2000] \<and>
        scene_finished
          (scene_endTrial
            \<lparr>scene_stimuli = [[Image ''a.png'', Blank], [Blank, Image ''b.png'']],
             image_size = [100, 100], trial_duration = 2000\<rparr> s) =
          [[[Image ''a.png'', Blank], [Blank, Image ''b.png'']]])"
proof -
  have a: "scene_stimuli \<lparr>scene_stimuli = [[Image ''a.png'', Blank], [Blank, Image ''b.png'']],
      image_size = [100, 100], trial_duration = 2000\<rparr> \<noteq> []"
    by simp
  show ?thesis
    using a scene_trial_arms_one_timer [OF a, of "''old''"]
    by auto
qed

text \<open>
  Claim C9 as stated fails for the grid without rows: \<^verbatim>\<open>generate_stimulus\<close> reads
  \<^verbatim>\<open>pattern[0].length\<close>, which throws, and \<^verbatim>\<open>trial\<close> is left before the timer is
  armed.
\<close>

theorem scene_trial_throws_on_empty_grid:
  "scene_trial ''old'' \<lparr>scene_stimuli = [], image_size = [100, 100], trial_duration = 2000\<rparr> =
     Inl TypeError"
  by (simp add: scene_trial_def generate_stimulus_def)

end
